theory Spec2Isabelle
  imports Main "HOL-Library.Word" "HOL-Library.Signed_Division"
begin

section \<open>The typespeed kernel module: data model\<close>

text \<open>
  The module keeps four file-scope variables (\<^verbatim>\<open>typespeed.c\<close>, lines 15 to 20):
  the cursor \<^verbatim>\<open>static int t\<close>, the in-progress counter \<^verbatim>\<open>static size_t events\<close>,
  the lifetime sum \<^verbatim>\<open>static size_t total\<close> and the ring
  \<^verbatim>\<open>static size_t interval[LENGTH]\<close> with \<^verbatim>\<open>LENGTH\<close> defined as 60.
  \<^verbatim>\<open>size_t\<close> is the unsigned 64-bit word of an LP64 kernel: addition and
  multiplication wrap around.  \<^verbatim>\<open>unsigned int\<close> is a 32-bit word, and so is the
  \<^verbatim>\<open>int value\<close> of an input event, read in two's complement (\<open>sint\<close>).  The cursor is
  an \<^verbatim>\<open>int\<close> that the code keeps between 0 and 59 (lemma \<open>wf_timer_callback\<close> below), so
  it is modelled as a mathematical integer with C's truncating remainder \<open>smod\<close>
  written out.
\<close>

type_synonym size_t = "64 word"
type_synonym uint = "32 word"
type_synonym cint = "32 word"

definition LENGTH_N :: int where
  "LENGTH_N = 60"

record state =
  t :: int
  events :: size_t
  total :: size_t
  interval :: "size_t list"

text \<open>Static storage is zero-initialised when the module is loaded.\<close>

definition zero_state :: state where
  "zero_state = \<lparr>t = 0, events = 0, total = 0, interval = replicate 60 0\<rparr>"

text \<open>
  The cursor addresses the array only while it lies in \<open>[0, LENGTH)\<close>; outside that
  range the C program has no defined behaviour, so every statement about array cells is
  made for well-formed states, and well-formedness is shown to be preserved.
\<close>

definition wf_state :: "state \<Rightarrow> bool" where
  "wf_state s \<longleftrightarrow> 0 \<le> t s \<and> t s < LENGTH_N \<and> length (interval s) = 60"

section \<open>Rotation: \<^verbatim>\<open>timer_callback\<close>\<close>

text \<open>
  Lines 26 to 38.  The statements between \<^verbatim>\<open>spin_lock\<close> and \<^verbatim>\<open>spin_unlock\<close> advance the
  cursor, store the counter in the ring and add it to the total; \<^verbatim>\<open>events = 0\<close> follows
  the unlock.  The argument \<^verbatim>\<open>data\<close> is unused, and re-arming the timer with
  \<^verbatim>\<open>mod_timer\<close> does not touch the four variables.
\<close>

definition timer_callback :: "state \<Rightarrow> state" where
  "timer_callback s =
     (let s1 = s\<lparr>t := (t s + 1) smod LENGTH_N\<rparr>;
          s2 = s1\<lparr>interval := (interval s1)[nat (t s1) := events s1]\<rparr>;
          s3 = s2\<lparr>total := total s2 + events s2\<rparr>
      in s3\<lparr>events := 0\<rparr>)"

section \<open>The event filter: \<^verbatim>\<open>typespeed_event\<close>\<close>

text \<open>
  The event codes come from the kernel header \<^verbatim>\<open>linux/input.h\<close>; the values below are
  those of that header.  Only the sample inputs depend on the particular values.
\<close>

definition EV_KEY :: uint where "EV_KEY = 1"
definition KEY_BACKSPACE :: uint where "KEY_BACKSPACE = 14"
definition KEY_LEFTCTRL :: uint where "KEY_LEFTCTRL = 29"
definition KEY_LEFTSHIFT :: uint where "KEY_LEFTSHIFT = 42"
definition KEY_RIGHTSHIFT :: uint where "KEY_RIGHTSHIFT = 54"
definition KEY_LEFTALT :: uint where "KEY_LEFTALT = 56"
definition KEY_CAPSLOCK :: uint where "KEY_CAPSLOCK = 58"
definition KEY_RIGHTCTRL :: uint where "KEY_RIGHTCTRL = 97"
definition KEY_RIGHTALT :: uint where "KEY_RIGHTALT = 100"

text \<open>
  Lines 89 to 114: three early returns, then \<^verbatim>\<open>events++\<close>.  The \<^verbatim>\<open>handle\<close> argument is
  not used.
\<close>

definition typespeed_event :: "uint \<Rightarrow> uint \<Rightarrow> cint \<Rightarrow> state \<Rightarrow> state" where
  "typespeed_event type code value s =
     (if type \<noteq> EV_KEY \<or> code = 0 \<or> code \<ge> 128 then s
      else if value \<noteq> 1 then s
      else if code = KEY_RIGHTSHIFT \<or> code = KEY_LEFTSHIFT \<or>
              code = KEY_RIGHTCTRL \<or> code = KEY_LEFTCTRL \<or>
              code = KEY_RIGHTALT \<or> code = KEY_LEFTALT \<or>
              code = KEY_CAPSLOCK \<or> code = KEY_BACKSPACE then s
      else s\<lparr>events := events s + 1\<rparr>)"

text \<open>The modifier and control keys that the filter names.\<close>

definition modifier_keys :: "uint set" where
  "modifier_keys = {KEY_LEFTSHIFT, KEY_RIGHTSHIFT, KEY_LEFTCTRL, KEY_RIGHTCTRL,
                    KEY_LEFTALT, KEY_RIGHTALT, KEY_CAPSLOCK, KEY_BACKSPACE}"

text \<open>
  A countable key event, in the specification's words: key-transition type, code from 1
  to 127, value 1, and not one of the eight excluded keys.
\<close>

definition countable :: "uint \<Rightarrow> uint \<Rightarrow> cint \<Rightarrow> bool" where
  "countable type code value \<longleftrightarrow>
     type = EV_KEY \<and> 1 \<le> code \<and> code < 128 \<and> value = 1 \<and> code \<notin> modifier_keys"

text \<open>A stream of input events delivered one after the other, with no rotation between.\<close>

type_synonym event = "uint \<times> uint \<times> cint"

fun deliver :: "event list \<Rightarrow> state \<Rightarrow> state" where
  "deliver [] s = s"
| "deliver ((type, code, value) # es) s = deliver es (typespeed_event type code value s)"

fun countable_event :: "event \<Rightarrow> bool" where
  "countable_event (type, code, value) = countable type code value"

section \<open>The status query: \<^verbatim>\<open>typespeed_proc_show\<close>\<close>

text \<open>
  Lines 135 to 144 are three \<^verbatim>\<open>for\<close> loops over one index \<^verbatim>\<open>i\<close> that is not reset between
  them.  One loop, from the current \<^verbatim>\<open>i\<close> up to a bound, adding
  \<^verbatim>\<open>interval[(LENGTH + t - i)%LENGTH]\<close> to an accumulator, returns the final index and the
  accumulator.
\<close>

function sum_window :: "state \<Rightarrow> int \<Rightarrow> int \<Rightarrow> size_t \<Rightarrow> int \<times> size_t" where
  "sum_window s bound i acc =
     (if i < bound
      then sum_window s bound (i + 1)
             (acc + interval s ! nat ((LENGTH_N + t s - i) smod LENGTH_N))
      else (i, acc))"
  by pat_completeness auto
termination
  by (relation "measure (\<lambda>(s, bound, i, acc). nat (bound - i))") auto

declare sum_window.simps [simp del]

text \<open>
  The critical section of \<^verbatim>\<open>typespeed_proc_show\<close> (lines 133 to 146): the values of
  \<^verbatim>\<open>sum10\<close>, \<^verbatim>\<open>sum30\<close> and \<^verbatim>\<open>sum\<close> at \<^verbatim>\<open>spin_unlock\<close>.  The C variable \<^verbatim>\<open>sum\<close> is
  called \<open>sum60\<close> here.
\<close>

definition window_sums :: "state \<Rightarrow> size_t \<times> size_t \<times> size_t" where
  "window_sums s =
     (let (i, sum10) = sum_window s 10 0 0;
          sum30 = sum10;
          (i, sum30) = sum_window s 30 i sum30;
          sum60 = sum30;
          (i, sum60) = sum_window s LENGTH_N i sum60
      in (sum10, sum30, sum60))"

text \<open>
  The four arguments of \<^verbatim>\<open>seq_printf\<close> (line 149).  \<^verbatim>\<open>LENGTH\<close> is converted to
  \<^verbatim>\<open>size_t\<close>, the product wraps around, and the division is unsigned.
\<close>

definition render_args ::
  "size_t \<Rightarrow> size_t \<Rightarrow> size_t \<Rightarrow> size_t \<Rightarrow> size_t \<times> size_t \<times> size_t \<times> size_t" where
  "render_args sum10 sum30 sum60 tot =
     (sum10 * word_of_int LENGTH_N div 10, sum30 * word_of_int LENGTH_N div 30, sum60, tot)"

text \<open>
  \<^verbatim>\<open>seq_printf\<close> belongs to the kernel.  It appends the formatted text to the buffer of
  the \<^verbatim>\<open>seq_file\<close>, modelled as a string.  The conversion \<^verbatim>\<open>%zd\<close> prints its argument
  as a signed decimal number.
\<close>

definition digit_char :: "nat \<Rightarrow> char" where
  "digit_char d = char_of (48 + d)"

function dec :: "nat \<Rightarrow> string" where
  "dec n = (if n < 10 then [digit_char n] else dec (n div 10) @ [digit_char (n mod 10)])"
  by pat_completeness auto
termination
  by (relation "measure (\<lambda>n. n)") auto

declare dec.simps [simp del]

definition fmt_zd :: "size_t \<Rightarrow> string" where
  "fmt_zd w = (if sint w < 0 then CHR ''-'' # dec (nat (- sint w)) else dec (nat (sint w)))"

definition seq_printf :: "string \<Rightarrow> size_t \<times> size_t \<times> size_t \<times> size_t \<Rightarrow> string" where
  "seq_printf m args =
     (case args of (a, b, c, d) \<Rightarrow>
        m @ fmt_zd a @ '' '' @ fmt_zd b @ '' '' @ fmt_zd c @ '' '' @ fmt_zd d @ [CHR 0x0A])"

text \<open>
  \<^verbatim>\<open>typespeed_proc_show\<close> (lines 126 to 151) returns 0 and the extended buffer.  It
  assigns to none of the four variables.  \<^verbatim>\<open>total\<close> is read when the arguments of
  \<^verbatim>\<open>seq_printf\<close> are evaluated, after \<^verbatim>\<open>spin_unlock\<close>.
\<close>

definition typespeed_proc_show :: "string \<Rightarrow> state \<Rightarrow> int \<times> string" where
  "typespeed_proc_show m s =
     (case window_sums s of (sum10, sum30, sum60) \<Rightarrow>
        (0, seq_printf m (render_args sum10 sum30 sum60 (total s))))"

text \<open>
  The specification's \<open>snapshot()\<close>: the three sums of the critical section and the
  total that the query reports with them.
\<close>

definition snapshot :: "state \<Rightarrow> size_t \<times> size_t \<times> size_t \<times> size_t" where
  "snapshot s = (case window_sums s of (sum10, sum30, sum60) \<Rightarrow> (sum10, sum30, sum60, total s))"

text \<open>
  The bucket \<open>k\<close> seconds behind the cursor, in the specification's words: the cell
  at position \<open>t - k\<close> modulo 60 (the mathematical remainder).
\<close>

definition bucket_behind :: "state \<Rightarrow> int \<Rightarrow> size_t" where
  "bucket_behind s k = interval s ! nat ((t s - k) mod 60)"

text \<open>
  A state the module can be in after the total reached 117: cursor 2, with 7 events in
  the latest second, 10 events twelve seconds ago and 100 events forty-two seconds ago.
\<close>

definition demo_state :: state where
  "demo_state = \<lparr>t = 2, events = 0, total = 117,
                  interval = (replicate 60 0)[2 := 7, 50 := 10, 20 := 100]\<rparr>"

section \<open>Sequences of operations\<close>

text \<open>
  The three entry points as operations on the module: an input event
  (\<^verbatim>\<open>typespeed_event\<close>), a timer tick (\<^verbatim>\<open>timer_callback\<close>) and a read of the proc file
  (\<^verbatim>\<open>typespeed_proc_show\<close> on an empty buffer).  A run carries the module state and the
  lines the queries have produced so far.
\<close>

datatype op = Event uint uint cint | Rotate | Query

fun apply_op :: "op \<Rightarrow> state \<times> string list \<Rightarrow> state \<times> string list" where
  "apply_op (Event type code value) (s, out) = (typespeed_event type code value s, out)"
| "apply_op Rotate (s, out) = (timer_callback s, out)"
| "apply_op Query (s, out) = (s, out @ [snd (typespeed_proc_show [] s)])"

fun run :: "op list \<Rightarrow> state \<times> string list \<Rightarrow> state \<times> string list" where
  "run [] c = c"
| "run (x # xs) c = run xs (apply_op x c)"

text \<open>
  No overflow of the total along a run: at every rotation the sum \<^verbatim>\<open>total + events\<close>
  fits into a \<^verbatim>\<open>size_t\<close>.
\<close>

fun total_fits :: "op list \<Rightarrow> state \<Rightarrow> bool" where
  "total_fits [] s = True"
| "total_fits (Event type code value # xs) s = total_fits xs (typespeed_event type code value s)"
| "total_fits (Rotate # xs) s =
     (unat (total s) + unat (events s) < 2 ^ 64 \<and> total_fits xs (timer_callback s))"
| "total_fits (Query # xs) s = total_fits xs s"

section \<open>Interleaved execution under the spin lock\<close>

text \<open>
  The timer callback and the query run in different contexts and synchronise on
  \<^verbatim>\<open>splock\<close>.  Each of them is cut at its statements: a control point names the statement
  the context executes next.  The three loops of the query are one step each; they run
  with the lock held.  An input event is one step.
\<close>

datatype thread = Timer | Reader

datatype timer_pc = T_idle | T_locked | T_advanced | T_stored | T_added | T_unlocked

datatype reader_pc = R_idle | R_locked | R_sum10 | R_sum30 | R_sum60 | R_unlocked

datatype action = Tick | Read | Key uint uint cint

record sys =
  globals :: state
  splock :: "thread option"
  timer_at :: timer_pc
  reader_at :: reader_pc
  r_i :: int
  r_sum10 :: size_t
  r_sum30 :: size_t
  r_sum :: size_t
  r_m :: string

definition init_sys :: sys where
  "init_sys = \<lparr>globals = zero_state, splock = None, timer_at = T_idle, reader_at = R_idle,
                r_i = 0, r_sum10 = 0, r_sum30 = 0, r_sum = 0, r_m = []\<rparr>"

text \<open>
  \<^verbatim>\<open>timer_callback\<close>, statement by statement (lines 28 to 34).  \<^verbatim>\<open>spin_lock\<close> makes no
  progress while the lock is taken.
\<close>

definition timer_step :: "sys \<Rightarrow> sys option" where
  "timer_step c =
     (case timer_at c of
        T_idle \<Rightarrow>
          (if splock c = None then Some (c\<lparr>splock := Some Timer, timer_at := T_locked\<rparr>)
           else None)
      | T_locked \<Rightarrow>
          Some (c\<lparr>globals := (globals c)\<lparr>t := (t (globals c) + 1) smod LENGTH_N\<rparr>,
                  timer_at := T_advanced\<rparr>)
      | T_advanced \<Rightarrow>
          Some (c\<lparr>globals := (globals c)\<lparr>interval :=
                    (interval (globals c))[nat (t (globals c)) := events (globals c)]\<rparr>,
                  timer_at := T_stored\<rparr>)
      | T_stored \<Rightarrow>
          Some (c\<lparr>globals := (globals c)\<lparr>total := total (globals c) + events (globals c)\<rparr>,
                  timer_at := T_added\<rparr>)
      | T_added \<Rightarrow> Some (c\<lparr>splock := None, timer_at := T_unlocked\<rparr>)
      | T_unlocked \<Rightarrow>
          Some (c\<lparr>globals := (globals c)\<lparr>events := 0\<rparr>, timer_at := T_idle\<rparr>))"

text \<open>
  \<^verbatim>\<open>typespeed_proc_show\<close>, statement by statement: the initialisation of \<^verbatim>\<open>sum10\<close> and
  \<^verbatim>\<open>spin_lock\<close> (lines 129 to 133), the three loops (lines 135 to 144),
  \<^verbatim>\<open>spin_unlock\<close> (line 146), and \<^verbatim>\<open>seq_printf\<close> (lines 148 and 149), whose fourth
  argument is the variable \<^verbatim>\<open>total\<close> read at that moment.
\<close>

definition reader_step :: "sys \<Rightarrow> sys option" where
  "reader_step c =
     (case reader_at c of
        R_idle \<Rightarrow>
          (if splock c = None
           then Some (c\<lparr>splock := Some Reader, reader_at := R_locked, r_sum10 := 0\<rparr>)
           else None)
      | R_locked \<Rightarrow>
          (case sum_window (globals c) 10 0 (r_sum10 c) of (i, sum10) \<Rightarrow>
             Some (c\<lparr>reader_at := R_sum10, r_i := i, r_sum10 := sum10\<rparr>))
      | R_sum10 \<Rightarrow>
          (case sum_window (globals c) 30 (r_i c) (r_sum10 c) of (i, sum30) \<Rightarrow>
             Some (c\<lparr>reader_at := R_sum30, r_i := i, r_sum30 := sum30\<rparr>))
      | R_sum30 \<Rightarrow>
          (case sum_window (globals c) LENGTH_N (r_i c) (r_sum30 c) of (i, sum60) \<Rightarrow>
             Some (c\<lparr>reader_at := R_sum60, r_i := i, r_sum := sum60\<rparr>))
      | R_sum60 \<Rightarrow> Some (c\<lparr>splock := None, reader_at := R_unlocked\<rparr>)
      | R_unlocked \<Rightarrow>
          Some (c\<lparr>reader_at := R_idle,
                  r_m := seq_printf (r_m c)
                           (render_args (r_sum10 c) (r_sum30 c) (r_sum c) (total (globals c)))\<rparr>))"

definition step :: "action \<Rightarrow> sys \<Rightarrow> sys option" where
  "step a c =
     (case a of
        Tick \<Rightarrow> timer_step c
      | Read \<Rightarrow> reader_step c
      | Key type code value \<Rightarrow> Some (c\<lparr>globals := typespeed_event type code value (globals c)\<rparr>))"

text \<open>A schedule is a list of actions; it fails where a context would have to wait.\<close>

fun exec :: "action list \<Rightarrow> sys \<Rightarrow> sys option" where
  "exec [] c = Some c"
| "exec (a # as) c = (case step a c of None \<Rightarrow> None | Some c' \<Rightarrow> exec as c')"

text \<open>Who holds the lock is determined by the control points.\<close>

definition lock_inv :: "sys \<Rightarrow> bool" where
  "lock_inv c \<longleftrightarrow>
     (splock c = Some Timer \<longleftrightarrow> timer_at c \<in> {T_locked, T_advanced, T_stored, T_added}) \<and>
     (splock c = Some Reader \<longleftrightarrow> reader_at c \<in> {R_locked, R_sum10, R_sum30, R_sum60})"

text \<open>
  A schedule in which the timer fires between the query's \<^verbatim>\<open>spin_unlock\<close> and its
  \<^verbatim>\<open>seq_printf\<close>: three key presses; the query takes the lock and runs its three
  loops; the query unlocks; the timer callback runs from \<^verbatim>\<open>spin_lock\<close> to
  \<^verbatim>\<open>events = 0\<close>; the query prints.
\<close>

definition keys3 :: "action list" where
  "keys3 = [Key 1 30 1, Key 1 31 1, Key 1 32 1]"

definition query_summed :: "action list" where
  "query_summed = keys3 @ [Read, Read, Read, Read]"

definition rotation_after_unlock :: "action list" where
  "rotation_after_unlock = query_summed @ [Read] @ [Tick, Tick, Tick, Tick, Tick, Tick]"

definition racing_schedule :: "action list" where
  "racing_schedule = rotation_after_unlock @ [Read]"

section \<open>Connecting to an input device: \<^verbatim>\<open>typespeed_connect\<close>\<close>

text \<open>
  \<^verbatim>\<open>typespeed_connect\<close> (lines 51 to 81) calls into the kernel: \<^verbatim>\<open>kzalloc\<close>,
  \<^verbatim>\<open>input_register_handle\<close>, \<^verbatim>\<open>input_open_device\<close>, \<^verbatim>\<open>input_unregister_handle\<close> and
  \<^verbatim>\<open>printk\<close>.  The kernel side is a record of the handles in memory, the handles
  registered with the input core, the handles whose device is open, and the log.
  Whether an allocation, a registration or an open succeeds is the kernel's decision,
  given as a parameter: the address \<^verbatim>\<open>kzalloc\<close> returns (\<open>None\<close> for \<^verbatim>\<open>NULL\<close>) and the two
  return codes.  A kernel call that fails is taken to change nothing.
\<close>

record input_handle =
  dev :: nat
  handler :: nat
  name :: string

record kernel =
  heap :: "nat \<rightharpoonup> input_handle"
  registered :: "nat list"
  opened :: "nat list"
  klog :: "string list"

record outcomes =
  kzalloc_result :: "nat option"
  register_rc :: int
  open_rc :: int

definition ENOMEM :: int where
  "ENOMEM = 12"

definition kzalloc :: "outcomes \<Rightarrow> kernel \<Rightarrow> nat option \<times> kernel" where
  "kzalloc env k =
     (case kzalloc_result env of
        None \<Rightarrow> (None, k)
      | Some p \<Rightarrow> (Some p, k\<lparr>heap := (heap k)(p \<mapsto> \<lparr>dev = 0, handler = 0, name = []\<rparr>)\<rparr>))"

definition input_register_handle :: "outcomes \<Rightarrow> nat \<Rightarrow> kernel \<Rightarrow> int \<times> kernel" where
  "input_register_handle env p k =
     (if register_rc env = 0 then (0, k\<lparr>registered := p # registered k\<rparr>)
      else (register_rc env, k))"

definition input_open_device :: "outcomes \<Rightarrow> nat \<Rightarrow> kernel \<Rightarrow> int \<times> kernel" where
  "input_open_device env p k =
     (if open_rc env = 0 then (0, k\<lparr>opened := p # opened k\<rparr>) else (open_rc env, k))"

definition input_unregister_handle :: "nat \<Rightarrow> kernel \<Rightarrow> kernel" where
  "input_unregister_handle p k = k\<lparr>registered := removeAll p (registered k)\<rparr>"

definition printk :: "string \<Rightarrow> kernel \<Rightarrow> kernel" where
  "printk msg k = k\<lparr>klog := klog k @ [msg]\<rparr>"

text \<open>
  The function itself.  The labels \<^verbatim>\<open>unregister\<close> and \<^verbatim>\<open>err\<close> are the two exits that
  return \<open>-1\<close>; nothing on them frees the handle.
\<close>

definition typespeed_connect :: "outcomes \<Rightarrow> nat \<Rightarrow> nat \<Rightarrow> kernel \<Rightarrow> int \<times> kernel" where
  "typespeed_connect env handler_p dev_p k =
     (case kzalloc env k of
        (None, k0) \<Rightarrow> (- ENOMEM, k0)
      | (Some handle, k0) \<Rightarrow>
          (let k1 = k0\<lparr>heap := (heap k0)(handle \<mapsto>
                       \<lparr>dev = dev_p, handler = handler_p, name = ''typespeed''\<rparr>)\<rparr>;
               (r, k2) = input_register_handle env handle k1
           in if r \<noteq> 0
              then (- 1, printk ''Failed to register input handle'' k2)
              else (let (r', k3) = input_open_device env handle k2
                    in if r' \<noteq> 0
                       then (- 1, input_unregister_handle handle
                                    (printk ''Failed to open input device'' k3))
                       else (0, k3))))"

section \<open>Invariant and sample inputs\<close>

text \<open>
  The ring never holds more than the total: the cells, read as natural numbers, add up
  to at most \<^verbatim>\<open>total\<close>.
\<close>

definition ring_le_total :: "state \<Rightarrow> bool" where
  "ring_le_total s \<longleftrightarrow> wf_state s \<and> (\<Sum>w\<leftarrow>interval s. unat w) \<le> unat (total s)"

text \<open>A run with three key presses, two rotations and a query.\<close>

definition busy_ops :: "op list" where
  "busy_ops = [Event 1 30 1, Event 1 31 1, Rotate, Event 1 32 1, Rotate, Query]"



text \<open>A kernel with no handles, and four ways the kernel calls can turn out.\<close>

definition empty_kernel :: kernel where
  "empty_kernel = \<lparr>heap = Map.empty, registered = [], opened = [], klog = []\<rparr>"

definition no_memory :: outcomes where
  "no_memory = \<lparr>kzalloc_result = None, register_rc = 0, open_rc = 0\<rparr>"

definition register_fails :: outcomes where
  "register_fails = \<lparr>kzalloc_result = Some 7, register_rc = - 22, open_rc = 0\<rparr>"

definition open_fails :: outcomes where
  "open_fails = \<lparr>kzalloc_result = Some 7, register_rc = 0, open_rc = - 19\<rparr>"

definition all_succeed :: outcomes where
  "all_succeed = \<lparr>kzalloc_result = Some 7, register_rc = 0, open_rc = 0\<rparr>"

section \<open>Properties of the event filter\<close>

lemma word_one_le_iff: "1 \<le> (c::uint) \<longleftrightarrow> c \<noteq> 0"
  by (simp add: word_le_nat_alt unat_eq_0 Suc_le_eq unat_gt_0)

text \<open>
  Claim C3.  \<^verbatim>\<open>typespeed_event\<close> adds one to the in-progress counter, and changes
  nothing else, exactly when the event has the key-transition type, a code from 1 to 127,
  the value 1 and a code outside the eight excluded keys; for every other triple the whole
  state is returned unchanged.
\<close>

theorem typespeed_event_counts_iff:
  "(countable type code value \<longrightarrow>
      typespeed_event type code value s = s\<lparr>events := events s + 1\<rparr> \<and>
      events (typespeed_event type code value s) \<noteq> events s) \<and>
   (\<not> countable type code value \<longrightarrow> typespeed_event type code value s = s)"
  by (auto simp add: typespeed_event_def countable_def modifier_keys_def word_one_le_iff
        not_le)

theorem typespeed_event_counts_iff_witness:
  "countable 1 30 1 \<and>
   events (typespeed_event 1 30 1 zero_state) = 1 \<and>
   \<not> countable 1 42 1 \<and> typespeed_event 1 42 1 zero_state = zero_state \<and>
   \<not> countable 1 30 2 \<and> typespeed_event 1 30 2 zero_state = zero_state \<and>
   \<not> countable 1 128 1 \<and> typespeed_event 1 128 1 zero_state = zero_state \<and>
   \<not> countable 1 0 1 \<and> typespeed_event 1 0 1 zero_state = zero_state \<and>
   \<not> countable 2 30 1 \<and> typespeed_event 2 30 1 zero_state = zero_state"
proof -
  have c: "countable 1 30 1"
    by (simp add: countable_def modifier_keys_def EV_KEY_def KEY_LEFTSHIFT_def
          KEY_RIGHTSHIFT_def KEY_LEFTCTRL_def KEY_RIGHTCTRL_def KEY_LEFTALT_def
          KEY_RIGHTALT_def KEY_CAPSLOCK_def KEY_BACKSPACE_def)
  have n1: "\<not> countable 1 42 1"
    by (simp add: countable_def modifier_keys_def KEY_LEFTSHIFT_def)
  have n2: "\<not> countable 1 30 2" by (simp add: countable_def)
  have n3: "\<not> countable 1 128 1" by (simp add: countable_def)
  have n4: "\<not> countable 1 0 1" by (simp add: countable_def)
  have n5: "\<not> countable 2 30 1" by (simp add: countable_def EV_KEY_def)
  from c typespeed_event_counts_iff [of 1 30 1 zero_state]
  have e: "events (typespeed_event 1 30 1 zero_state) = 1"
    by (simp add: zero_state_def)
  from c n1 n2 n3 n4 n5 e
    typespeed_event_counts_iff [of 1 42 1 zero_state]
    typespeed_event_counts_iff [of 1 30 2 zero_state]
    typespeed_event_counts_iff [of 1 128 1 zero_state]
    typespeed_event_counts_iff [of 1 0 1 zero_state]
    typespeed_event_counts_iff [of 2 30 1 zero_state]
  show ?thesis by simp
qed

section \<open>Properties of the rotation\<close>

lemma wf_zero_state: "wf_state zero_state"
  by (simp add: wf_state_def zero_state_def LENGTH_N_def)

lemma cursor_step: "0 \<le> c \<Longrightarrow> c < 60 \<Longrightarrow> (c + 1) smod (60::int) = (c + 1) mod 60"
  by (simp add: smod_int_alt_def sgn_if)

lemma timer_callback_fields:
  "t (timer_callback s) = (t s + 1) smod LENGTH_N"
  "events (timer_callback s) = 0"
  "total (timer_callback s) = total s + events s"
  "interval (timer_callback s) = (interval s)[nat ((t s + 1) smod LENGTH_N) := events s]"
  by (simp_all add: timer_callback_def Let_def)

lemma wf_timer_callback: "wf_state s \<Longrightarrow> wf_state (timer_callback s)"
  by (simp add: wf_state_def timer_callback_fields LENGTH_N_def cursor_step)

lemma typespeed_event_other:
  "t (typespeed_event type code value s) = t s"
  "total (typespeed_event type code value s) = total s"
  "interval (typespeed_event type code value s) = interval s"
  by (simp_all add: typespeed_event_def)

lemma wf_typespeed_event: "wf_state s \<Longrightarrow> wf_state (typespeed_event type code value s)"
  by (simp add: wf_state_def typespeed_event_other)

lemma typespeed_event_countable:
  "countable type code value \<Longrightarrow> typespeed_event type code value s = s\<lparr>events := events s + 1\<rparr>"
  by (auto simp add: typespeed_event_def countable_def modifier_keys_def word_one_le_iff not_le)

lemma deliver_countable:
  "list_all countable_event es \<Longrightarrow> deliver es s = s\<lparr>events := events s + of_nat (length es)\<rparr>"
proof (induction es arbitrary: s)
  case Nil
  then show ?case by simp
next
  case (Cons e es)
  obtain ty cd vl where e: "e = (ty, cd, vl)" by (cases e)
  from Cons.prems e have c: "countable ty cd vl" and r: "list_all countable_event es"
    by simp_all
  show ?case
    by (simp add: e typespeed_event_countable [OF c] Cons.IH [OF r] algebra_simps)
qed

lemma deliver_other:
  "t (deliver es s) = t s" "total (deliver es s) = total s" "interval (deliver es s) = interval s"
  by (induction es arbitrary: s) (auto simp add: typespeed_event_other)

text \<open>
  Claim C2.  Let \<open>n\<close> countable key events arrive, with no rotation between them,
  in a well-formed state whose in-progress counter is zero (the state \<^verbatim>\<open>timer_callback\<close>
  leaves behind, and the start state).  The next \<^verbatim>\<open>timer_callback\<close> moves the cursor to
  \<open>(t + 1) mod 60\<close>, overwrites the ring cell at the new cursor with \<open>n\<close> and changes no
  other cell, adds \<open>n\<close> to \<^verbatim>\<open>total\<close> and leaves the counter at zero.  The value \<open>n\<close> is
  held in a \<^verbatim>\<open>size_t\<close>; for \<open>n\<close> below \<open>2 ^ 64\<close> the cell reads back as the number
  \<open>n\<close> itself.
\<close>

theorem rotate_commits_count:
  assumes "wf_state s" and "events s = 0" and "list_all countable_event es" and "length es = n"
  shows "t (timer_callback (deliver es s)) = (t s + 1) mod 60 \<and>
         interval (timer_callback (deliver es s)) = (interval s)[nat ((t s + 1) mod 60) := of_nat n] \<and>
         interval (timer_callback (deliver es s)) ! nat (t (timer_callback (deliver es s))) = of_nat n \<and>
         (n < 2 ^ 64 \<longrightarrow>
            unat (interval (timer_callback (deliver es s)) ! nat (t (timer_callback (deliver es s)))) = n) \<and>
         total (timer_callback (deliver es s)) = total s + of_nat n \<and>
         events (timer_callback (deliver es s)) = 0"
proof -
  from assms(1) have c: "0 \<le> t s" "t s < 60" and l: "length (interval s) = 60"
    by (simp_all add: wf_state_def LENGTH_N_def)
  have d: "deliver es s = s\<lparr>events := of_nat n\<rparr>"
    using deliver_countable [OF assms(3), of s] assms(2,4) by simp
  have m: "(t s + 1) smod LENGTH_N = (t s + 1) mod 60"
    using c by (simp add: LENGTH_N_def cursor_step)
  have b: "nat ((t s + 1) mod 60) < length (interval s)"
    using l by simp
  have u: "n < 2 ^ 64 \<Longrightarrow> unat (of_nat n :: size_t) = n"
    by (simp add: unat_of_nat)
  show ?thesis
    using b u by (simp add: d timer_callback_fields m)
qed

theorem rotate_commits_count_witness:
  "wf_state zero_state \<and> events zero_state = 0 \<and>
   list_all countable_event [(1, 30, 1), (1, 31, 1), (1, 32, 1)] \<and>
   t (timer_callback (deliver [(1, 30, 1), (1, 31, 1), (1, 32, 1)] zero_state)) = 1 \<and>
   interval (timer_callback (deliver [(1, 30, 1), (1, 31, 1), (1, 32, 1)] zero_state)) ! 1 = 3 \<and>
   unat (interval (timer_callback (deliver [(1, 30, 1), (1, 31, 1), (1, 32, 1)] zero_state)) ! 1) = 3 \<and>
   total (timer_callback (deliver [(1, 30, 1), (1, 31, 1), (1, 32, 1)] zero_state)) = 3 \<and>
   events (timer_callback (deliver [(1, 30, 1), (1, 31, 1), (1, 32, 1)] zero_state)) = 0"
proof -
  have h1: "wf_state zero_state" by (rule wf_zero_state)
  have h2: "events zero_state = 0" by (simp add: zero_state_def)
  have h3: "list_all countable_event [(1, 30, 1), (1, 31, 1), (1, 32, 1)]" by code_simp
  have h4: "length [(1::uint, 30::uint, 1::cint), (1, 31, 1), (1, 32, 1)] = 3" by simp
  have z: "t zero_state = 0" "total zero_state = 0" "interval zero_state = replicate 60 0"
    by (simp_all add: zero_state_def)
  from rotate_commits_count [OF h1 h2 h3 h4] h1 h2 h3 show ?thesis
    by (simp add: z)
qed

section \<open>Properties of the status query\<close>

lemma sum_window_eq:
  "sum_window s bound i acc =
     (if i < bound then bound else i,
      acc + (\<Sum>k\<leftarrow>[i..bound - 1]. interval s ! nat ((LENGTH_N + t s - k) smod LENGTH_N)))"
proof (induction s bound i acc rule: sum_window.induct)
  case (1 s bound i acc)
  show ?case
  proof (cases "i < bound")
    case True
    then have u: "[i..bound - 1] = i # [i + 1..bound - 1]"
      by (simp add: upto_rec1)
    from True "1.IH" show ?thesis
      by (subst sum_window.simps) (simp add: u add.assoc)
  next
    case False
    then show ?thesis
      by (subst sum_window.simps) simp
  qed
qed

lemma cell_bucket_behind:
  assumes "wf_state s" and "0 \<le> k" and "k < 60"
  shows "interval s ! nat ((LENGTH_N + t s - k) smod LENGTH_N) = bucket_behind s k"
proof -
  from assms have "0 \<le> 60 + t s - k" by (simp add: wf_state_def)
  then have "(60 + t s - k) smod 60 = (60 + t s - k) mod 60"
    by (simp add: smod_int_alt_def sgn_if)
  also have "\<dots> = (t s - k) mod 60"
    by (metis add.commute add_diff_eq mod_add_self2)
  finally show ?thesis
    by (simp add: bucket_behind_def LENGTH_N_def)
qed

lemma window_cells:
  assumes "wf_state s" and "0 \<le> a" and "b < 60"
  shows "(\<Sum>k\<leftarrow>[a..b]. interval s ! nat ((LENGTH_N + t s - k) smod LENGTH_N)) =
         (\<Sum>k\<leftarrow>[a..b]. bucket_behind s k)"
proof -
  have "map (\<lambda>k. interval s ! nat ((LENGTH_N + t s - k) smod LENGTH_N)) [a..b] =
        map (bucket_behind s) [a..b]"
    using assms by (intro map_cong refl cell_bucket_behind) auto
  then show ?thesis by (rule arg_cong)
qed

lemma window_sums_eq:
  "window_sums s =
     (let c = (\<lambda>k. interval s ! nat ((LENGTH_N + t s - k) smod LENGTH_N));
          a = (\<Sum>k\<leftarrow>[0..9]. c k); b = (\<Sum>k\<leftarrow>[10..29]. c k); d = (\<Sum>k\<leftarrow>[30..59]. c k)
      in (a, a + b, a + b + d))"
  by (simp add: window_sums_def sum_window_eq LENGTH_N_def Let_def)

lemma window_sums_behind:
  assumes "wf_state s"
  shows "window_sums s =
     ((\<Sum>k\<leftarrow>[0..9]. bucket_behind s k),
      (\<Sum>k\<leftarrow>[0..9]. bucket_behind s k) + (\<Sum>k\<leftarrow>[10..29]. bucket_behind s k),
      (\<Sum>k\<leftarrow>[0..9]. bucket_behind s k) + (\<Sum>k\<leftarrow>[10..29]. bucket_behind s k) +
      (\<Sum>k\<leftarrow>[30..59]. bucket_behind s k))"
proof -
  have a: "(\<Sum>k\<leftarrow>[0..9]. interval s ! nat ((LENGTH_N + t s - k) smod LENGTH_N)) =
           (\<Sum>k\<leftarrow>[0..9]. bucket_behind s k)"
    by (rule window_cells [OF assms]) simp_all
  have b: "(\<Sum>k\<leftarrow>[10..29]. interval s ! nat ((LENGTH_N + t s - k) smod LENGTH_N)) =
           (\<Sum>k\<leftarrow>[10..29]. bucket_behind s k)"
    by (rule window_cells [OF assms]) simp_all
  have c: "(\<Sum>k\<leftarrow>[30..59]. interval s ! nat ((LENGTH_N + t s - k) smod LENGTH_N)) =
           (\<Sum>k\<leftarrow>[30..59]. bucket_behind s k)"
    by (rule window_cells [OF assms]) simp_all
  show ?thesis
    by (simp only: window_sums_eq Let_def a b c)
qed

lemma wf_demo: "wf_state demo_state"
  by (simp add: wf_state_def demo_state_def LENGTH_N_def)

lemma snap_demo: "snapshot demo_state = (7, 17, 117, 117)"
  by code_simp

text \<open>
  Claim C4.  For every ring contents and every cursor position, the three sums of the
  query nest: \<open>sum10\<close> is the sum of the buckets at offsets 0 to 9 behind the cursor,
  \<open>sum30\<close> is \<open>sum10\<close> plus the buckets at offsets 10 to 29, and \<open>sum60\<close> is
  \<open>sum30\<close> plus the buckets at offsets 30 to 59 (sums of \<^verbatim>\<open>size_t\<close> values).
\<close>

theorem snapshot_nesting:
  assumes "wf_state s" and "snapshot s = (sum10, sum30, sum60, tot)"
  shows "sum10 = (\<Sum>k\<leftarrow>[0..9]. bucket_behind s k) \<and>
         sum30 = sum10 + (\<Sum>k\<leftarrow>[10..29]. bucket_behind s k) \<and>
         sum60 = sum30 + (\<Sum>k\<leftarrow>[30..59]. bucket_behind s k)"
  using assms(2)
  by (auto simp add: snapshot_def window_sums_behind [OF assms(1)] simp del: upto_rec_numeral)

theorem snapshot_nesting_witness:
  "wf_state demo_state \<and> snapshot demo_state = (7, 17, 117, 117) \<and>
   (7::size_t) = (\<Sum>k\<leftarrow>[0..9]. bucket_behind demo_state k) \<and>
   (17::size_t) = 7 + (\<Sum>k\<leftarrow>[10..29]. bucket_behind demo_state k) \<and>
   (117::size_t) = 17 + (\<Sum>k\<leftarrow>[30..59]. bucket_behind demo_state k)"
  using wf_demo snap_demo snapshot_nesting [OF wf_demo snap_demo] by blast

subsection \<open>Scaling and rendering\<close>

lemma unat_mult_small:
  fixes a :: size_t
  assumes "unat a * k < 2 ^ 64" and "k < 2 ^ 64"
  shows "unat (a * of_nat k) = unat a * k"
proof -
  have "unat (of_nat k :: size_t) = k" using assms(2) by (simp add: unat_of_nat)
  then show ?thesis
    using assms(1) unat_mult_lem [of a "of_nat k"] by simp
qed

lemma scale10:
  fixes a :: size_t
  assumes "unat a * 60 < 2 ^ 64"
  shows "a * 60 div 10 = a * 6" and "unat (a * 6) = unat a * 6"
proof -
  have u60: "unat (a * 60) = unat a * 60"
    using unat_mult_small [of a 60] assms by simp
  show u6: "unat (a * 6) = unat a * 6"
    using unat_mult_small [of a 6] assms by simp
  have "unat (a * 60 div 10) = unat (a * 6)"
    by (simp add: unat_div u60 u6)
  then show "a * 60 div 10 = a * 6"
    by (simp add: word_unat_eq_iff)
qed

lemma scale30:
  fixes a :: size_t
  assumes "unat a * 60 < 2 ^ 64"
  shows "a * 60 div 30 = a * 2" and "unat (a * 2) = unat a * 2"
proof -
  have u60: "unat (a * 60) = unat a * 60"
    using unat_mult_small [of a 60] assms by simp
  show u2: "unat (a * 2) = unat a * 2"
    using unat_mult_small [of a 2] assms by simp
  have "unat (a * 60 div 30) = unat (a * 2)"
    by (simp add: unat_div u60 u2)
  then show "a * 60 div 30 = a * 2"
    by (simp add: word_unat_eq_iff)
qed

lemma sint_small: "unat (w::size_t) < 2 ^ 63 \<Longrightarrow> sint w = int (unat w)"
proof -
  assume a: "unat w < 2 ^ 63"
  have lo: "- (2 ^ 63) \<le> uint w"
  proof -
    have "- (2 ^ 63) \<le> (0::int)" by simp
    also have "0 \<le> uint w" by simp
    finally show ?thesis .
  qed
  have hi: "uint w < 2 ^ 63"
  proof -
    from a have "int (unat w) < int (2 ^ 63)" by (simp only: of_nat_less_iff)
    then show ?thesis by simp
  qed
  have "signed_take_bit 63 (uint w) = uint w"
    using lo hi by (rule signed_take_bit_int_eq_self)
  then show ?thesis
    by (simp add: sint_uint)
qed

lemma fmt_zd_small: "unat w < 2 ^ 63 \<Longrightarrow> fmt_zd w = dec (unat w)"
  by (simp add: fmt_zd_def sint_small)

text \<open>
  Claim C5.  When \<open>sum10 * 60\<close> and \<open>sum30 * 60\<close> do not overflow \<^verbatim>\<open>size_t\<close>, the
  first rendered figure is \<open>sum10 * 60 / 10 = sum10 * 6\<close> and the second is
  \<open>sum30 * 60 / 30 = sum30 * 2\<close>, with the division of natural numbers, the third
  argument is \<open>sum60\<close> as it is and the fourth the total; the line that
  \<^verbatim>\<open>typespeed_proc_show\<close> writes consists of these four figures.  A \<open>sum10\<close> of 7
  renders as 42.
\<close>

theorem rendered_rates:
  assumes "snapshot s = (sum10, sum30, sum60, tot)"
    and "unat sum10 * 60 < 2 ^ 64" and "unat sum30 * 60 < 2 ^ 64"
  shows "render_args sum10 sum30 sum60 tot = (sum10 * 6, sum30 * 2, sum60, tot) \<and>
         unat (sum10 * 60 div 10) = unat sum10 * 60 div 10 \<and>
         unat sum10 * 60 div 10 = unat sum10 * 6 \<and>
         unat (sum30 * 60 div 30) = unat sum30 * 60 div 30 \<and>
         unat sum30 * 60 div 30 = unat sum30 * 2 \<and>
         typespeed_proc_show m s =
           (0, m @ dec (unat sum10 * 6) @ '' '' @ dec (unat sum30 * 2) @ '' '' @
               fmt_zd sum60 @ '' '' @ fmt_zd tot @ [CHR 0x0A]) \<and>
         fst (render_args 7 sum30 sum60 tot) = 42 \<and> fmt_zd 42 = ''42''"
proof -
  from assms(1) have w: "window_sums s = (sum10, sum30, sum60)" and tt: "total s = tot"
    by (auto simp add: snapshot_def split: prod.splits)
  have r: "render_args sum10 sum30 sum60 tot = (sum10 * 6, sum30 * 2, sum60, tot)"
    by (simp add: render_args_def LENGTH_N_def scale10 [OF assms(2)] scale30 [OF assms(3)])
  have b6: "unat (sum10 * 6) < 2 ^ 63" using assms(2) by (simp add: scale10 [OF assms(2)])
  have b2: "unat (sum30 * 2) < 2 ^ 63" using assms(3) by (simp add: scale30 [OF assms(3)])
  have f6: "fmt_zd (sum10 * 6) = dec (unat sum10 * 6)"
    using fmt_zd_small [OF b6] by (simp add: scale10 [OF assms(2)])
  have f2: "fmt_zd (sum30 * 2) = dec (unat sum30 * 2)"
    using fmt_zd_small [OF b2] by (simp add: scale30 [OF assms(3)])
  have p: "typespeed_proc_show m s =
           (0, m @ dec (unat sum10 * 6) @ '' '' @ dec (unat sum30 * 2) @ '' '' @
               fmt_zd sum60 @ '' '' @ fmt_zd tot @ [CHR 0x0A])"
    by (simp add: typespeed_proc_show_def w tt r seq_printf_def f6 f2)
  have d: "fmt_zd 42 = ''42''" by code_simp
  have e: "fst (render_args 7 sum30 sum60 tot) = 42"
    by (simp add: render_args_def LENGTH_N_def)
  have u10: "unat (sum10 * 60 div 10) = unat sum10 * 60 div 10"
    by (simp add: scale10 [OF assms(2)])
  have u30: "unat (sum30 * 60 div 30) = unat sum30 * 60 div 30"
    by (simp add: scale30 [OF assms(3)])
  have a10: "unat sum10 * 60 div 10 = unat sum10 * 6" by simp
  have a30: "unat sum30 * 60 div 30 = unat sum30 * 2" by simp
  show ?thesis
    by (intro conjI; fact)
qed

theorem rendered_rates_witness:
  "snapshot demo_state = (7, 17, 117, 117) \<and>
   unat (7::size_t) * 60 < 2 ^ 64 \<and> unat (17::size_t) * 60 < 2 ^ 64 \<and>
   render_args 7 17 117 117 = (42, 34, 117, 117) \<and>
   typespeed_proc_show [] demo_state = (0, ''42 34 117 117\<newline>'')"
proof -
  have h2: "unat (7::size_t) * 60 < 2 ^ 64" by simp
  have h3: "unat (17::size_t) * 60 < 2 ^ 64" by simp
  have d: "dec 42 = ''42''" "dec 34 = ''34''" "fmt_zd 117 = ''117''" by code_simp+
  from rendered_rates [OF snap_demo h2 h3, of "[]"] snap_demo h2 h3 show ?thesis
    by (simp add: d)
qed

subsection \<open>Five key presses and one rotation\<close>

lemma typespeed_proc_show_buffer:
  "typespeed_proc_show m s = (0, m @ snd (typespeed_proc_show [] s))"
  by (simp add: typespeed_proc_show_def seq_printf_def split: prod.splits)

text \<open>
  Claim C6.  From the zero-initialised state, five countable key events followed by one
  \<^verbatim>\<open>timer_callback\<close> leave the cursor at 1 and a ring whose only non-zero cell is the
  one at the cursor, holding 5; the query computes \<open>sum10 = sum30 = sum60 = 5\<close>, reads
  the total 5, and writes the line \<^verbatim>\<open>30 10 5 5\<close> followed by a newline.
\<close>

theorem fresh_five_then_rotate:
  assumes "length es = 5" and "list_all countable_event es"
  shows "t (timer_callback (deliver es zero_state)) = 1 \<and>
         interval (timer_callback (deliver es zero_state)) = (replicate 60 0)[1 := 5] \<and>
         (\<forall>i<60. interval (timer_callback (deliver es zero_state)) ! i \<noteq> 0 \<longleftrightarrow>
                  int i = t (timer_callback (deliver es zero_state))) \<and>
         interval (timer_callback (deliver es zero_state)) !
           nat (t (timer_callback (deliver es zero_state))) = 5 \<and>
         snapshot (timer_callback (deliver es zero_state)) = (5, 5, 5, 5) \<and>
         typespeed_proc_show m (timer_callback (deliver es zero_state)) =
           (0, m @ ''30 10 5 5\<newline>'')"
proof -
  have d: "deliver es zero_state = zero_state\<lparr>events := 5\<rparr>"
    using deliver_countable [OF assms(2), of zero_state] assms(1)
    by (simp add: zero_state_def)
  have r: "timer_callback (zero_state\<lparr>events := 5\<rparr>) =
           \<lparr>t = 1, events = 0, total = 5, interval = (replicate 60 0)[1 := 5]\<rparr>"
    by code_simp
  have s: "timer_callback (deliver es zero_state) =
           \<lparr>t = 1, events = 0, total = 5, interval = (replicate 60 0)[1 := 5]\<rparr>"
    by (simp only: d r)
  have c1: "t \<lparr>t = 1, events = 0, total = 5, interval = (replicate 60 0)[1 := 5]\<rparr> = 1"
    by simp
  have c2: "interval \<lparr>t = 1, events = 0, total = 5, interval = (replicate 60 0)[1 := 5]\<rparr> =
            (replicate 60 0)[1 := 5]"
    by simp
  have c3: "\<forall>i<60. interval \<lparr>t = 1, events = 0, total = 5,
                interval = (replicate 60 0)[1 := 5]\<rparr> ! i \<noteq> 0 \<longleftrightarrow>
              int i = t \<lparr>t = 1, events = 0, total = 5, interval = (replicate 60 0)[1 := 5]\<rparr>"
    by (auto simp add: nth_list_update)
  have c4: "interval \<lparr>t = 1, events = 0, total = 5, interval = (replicate 60 0)[1 := 5]\<rparr> !
              nat (t \<lparr>t = 1, events = 0, total = 5, interval = (replicate 60 0)[1 := 5]\<rparr>) = 5"
    by simp
  have c5: "snapshot \<lparr>t = 1, events = 0, total = 5, interval = (replicate 60 0)[1 := 5]\<rparr> =
            (5, 5, 5, 5)"
    by code_simp
  have p: "typespeed_proc_show []
             \<lparr>t = 1, events = 0, total = 5, interval = (replicate 60 0)[1 := 5]\<rparr> =
           (0, ''30 10 5 5\<newline>'')"
    by code_simp
  have c6: "typespeed_proc_show m
             \<lparr>t = 1, events = 0, total = 5, interval = (replicate 60 0)[1 := 5]\<rparr> =
           (0, m @ ''30 10 5 5\<newline>'')"
    using p by (simp add: typespeed_proc_show_buffer [of m])
  show ?thesis
    unfolding s by (intro conjI; fact)
qed

theorem fresh_five_then_rotate_witness:
  "length [(1::uint, 35::uint, 1::cint), (1, 18, 1), (1, 38, 1), (1, 38, 1), (1, 24, 1)] = 5 \<and>
   list_all countable_event [(1, 35, 1), (1, 18, 1), (1, 38, 1), (1, 38, 1), (1, 24, 1)] \<and>
   interval (timer_callback
     (deliver [(1, 35, 1), (1, 18, 1), (1, 38, 1), (1, 38, 1), (1, 24, 1)] zero_state)) =
     (replicate 60 0)[1 := 5] \<and>
   snapshot (timer_callback
     (deliver [(1, 35, 1), (1, 18, 1), (1, 38, 1), (1, 38, 1), (1, 24, 1)] zero_state)) =
     (5, 5, 5, 5) \<and>
   typespeed_proc_show [] (timer_callback
     (deliver [(1, 35, 1), (1, 18, 1), (1, 38, 1), (1, 38, 1), (1, 24, 1)] zero_state)) =
     (0, ''30 10 5 5\<newline>'')"
proof -
  have h1: "length [(1::uint, 35::uint, 1::cint), (1, 18, 1), (1, 38, 1), (1, 38, 1), (1, 24, 1)] = 5"
    by simp
  have h2: "list_all countable_event [(1, 35, 1), (1, 18, 1), (1, 38, 1), (1, 38, 1), (1, 24, 1)]"
    by code_simp
  from fresh_five_then_rotate [OF h1 h2, of "[]"] h1 h2 show ?thesis
    by simp
qed

section \<open>Properties of the interleaved execution\<close>

lemma timer_step_lock_inv: "lock_inv c \<Longrightarrow> timer_step c = Some c' \<Longrightarrow> lock_inv c'"
  by (cases "timer_at c") (auto simp add: timer_step_def lock_inv_def split: if_splits)

lemma reader_step_lock_inv: "lock_inv c \<Longrightarrow> reader_step c = Some c' \<Longrightarrow> lock_inv c'"
  by (cases "reader_at c")
     (auto simp add: reader_step_def lock_inv_def split: if_splits prod.splits)

lemma step_lock_inv: "lock_inv c \<Longrightarrow> step a c = Some c' \<Longrightarrow> lock_inv c'"
proof (cases a)
  case Tick
  then show "lock_inv c \<Longrightarrow> step a c = Some c' \<Longrightarrow> lock_inv c'"
    by (simp add: step_def timer_step_lock_inv)
next
  case Read
  then show "lock_inv c \<Longrightarrow> step a c = Some c' \<Longrightarrow> lock_inv c'"
    by (simp add: step_def reader_step_lock_inv)
next
  case (Key ty cd vl)
  then show "lock_inv c \<Longrightarrow> step a c = Some c' \<Longrightarrow> lock_inv c'"
    by (auto simp add: step_def lock_inv_def)
qed

lemma exec_lock_inv: "lock_inv c \<Longrightarrow> exec as c = Some c' \<Longrightarrow> lock_inv c'"
proof (induction as arbitrary: c)
  case Nil
  then show ?case by simp
next
  case (Cons a as)
  then show ?case
    by (auto split: option.splits dest: step_lock_inv)
qed

lemma lock_inv_init: "lock_inv init_sys"
  by (simp add: lock_inv_def init_sys_def)


lemma reader_step_globals: "reader_step c = Some c' \<Longrightarrow> globals c' = globals c"
  by (cases "reader_at c") (auto simp add: reader_step_def split: if_splits prod.splits)


lemma step_read_globals: "step Read c = Some c' \<Longrightarrow> globals c' = globals c"
  by (simp add: step_def reader_step_globals)

text \<open>
  Run without interruption from their idle points, the six statements of the timer
  callback amount to \<^verbatim>\<open>timer_callback\<close>, and the six statements of the query leave the
  globals alone and extend the buffer as \<^verbatim>\<open>typespeed_proc_show\<close> does.
\<close>

lemma timer_uninterrupted:
  assumes "timer_at c = T_idle" and "splock c = None"
  shows "exec [Tick, Tick, Tick, Tick, Tick, Tick] c =
         Some (c\<lparr>globals := timer_callback (globals c)\<rparr>)"
  using assms
  by (simp add: step_def timer_step_def timer_callback_def Let_def)

lemma reader_uninterrupted:
  assumes "reader_at c = R_idle" and "splock c = None"
  shows "map_option (\<lambda>c'. (globals c', splock c', reader_at c', timer_at c', r_m c'))
           (exec [Read, Read, Read, Read, Read, Read] c) =
         Some (globals c, None, R_idle, timer_at c,
               snd (typespeed_proc_show (r_m c) (globals c)))"
  using assms
  by (simp add: step_def reader_step_def typespeed_proc_show_def window_sums_def Let_def
        split: prod.splits)

text \<open>
  While the query holds the lock, no step of the timer changes the cursor, the ring or
  the total: the three sums are taken from one state of the ring.  The statement that
  reads \<^verbatim>\<open>total\<close> is reached only after the lock has been released.
\<close>

lemma ring_stable_under_reader_lock:
  assumes "lock_inv c" and "splock c = Some Reader" and "step Tick c = Some c'"
  shows "t (globals c') = t (globals c) \<and> interval (globals c') = interval (globals c) \<and>
         total (globals c') = total (globals c)"
  using assms
  by (cases "timer_at c") (auto simp add: step_def timer_step_def lock_inv_def)

lemma total_read_without_lock:
  assumes "exec sched init_sys = Some c" and "reader_at c = R_unlocked"
  shows "splock c \<noteq> Some Reader"
  using exec_lock_inv [OF lock_inv_init assms(1)] assms(2) by (simp add: lock_inv_def)

text \<open>
  Claim C1.  The query does not read \<^verbatim>\<open>total\<close> inside the critical section in which it
  sums the ring.  In the schedule below the query has computed its three sums (all 0)
  under the lock, in a state whose total is 0; it unlocks; the timer callback runs to
  completion, committing 3 events to the ring and to the total; then the query
  evaluates the arguments of \<^verbatim>\<open>seq_printf\<close> and prints the sum 0 next to the total 3.
  Read atomically, the module would have printed \<^verbatim>\<open>0 0 0 0\<close> before the rotation and
  \<^verbatim>\<open>18 6 3 3\<close> after it.
\<close>

theorem total_read_after_unlock:
  "map_option (\<lambda>c. (splock c, reader_at c, r_sum10 c, r_sum30 c, r_sum c, globals c))
     (exec query_summed init_sys) =
     Some (Some Reader, R_sum60, 0, 0, 0, zero_state\<lparr>events := 3\<rparr>) \<and>
   map_option (\<lambda>c. (splock c, reader_at c, r_sum c, globals c))
     (exec rotation_after_unlock init_sys) =
     Some (None, R_unlocked, 0, timer_callback (zero_state\<lparr>events := 3\<rparr>)) \<and>
   total (zero_state\<lparr>events := 3\<rparr>) = 0 \<and>
   total (timer_callback (zero_state\<lparr>events := 3\<rparr>)) = 3 \<and>
   map_option r_m (exec racing_schedule init_sys) = Some ''0 0 0 3\<newline>'' \<and>
   typespeed_proc_show [] (zero_state\<lparr>events := 3\<rparr>) = (0, ''0 0 0 0\<newline>'') \<and>
   typespeed_proc_show [] (timer_callback (zero_state\<lparr>events := 3\<rparr>)) =
     (0, ''18 6 3 3\<newline>'')"
proof -
  have a: "map_option (\<lambda>c. (splock c, reader_at c, r_sum10 c, r_sum30 c, r_sum c, globals c))
             (exec query_summed init_sys) =
           Some (Some Reader, R_sum60, 0, 0, 0, zero_state\<lparr>events := 3\<rparr>)"
    by code_simp
  have b: "map_option (\<lambda>c. (splock c, reader_at c, r_sum c, globals c))
             (exec rotation_after_unlock init_sys) =
           Some (None, R_unlocked, 0, timer_callback (zero_state\<lparr>events := 3\<rparr>))"
    by code_simp
  have c: "total (zero_state\<lparr>events := 3\<rparr>) = 0" by (simp add: zero_state_def)
  have d: "total (timer_callback (zero_state\<lparr>events := 3\<rparr>)) = 3"
    by (simp add: timer_callback_fields zero_state_def)
  have e: "map_option r_m (exec racing_schedule init_sys) = Some ''0 0 0 3\<newline>''"
    by code_simp
  have f: "typespeed_proc_show [] (zero_state\<lparr>events := 3\<rparr>) = (0, ''0 0 0 0\<newline>'')"
    by code_simp
  have g: "typespeed_proc_show [] (timer_callback (zero_state\<lparr>events := 3\<rparr>)) =
           (0, ''18 6 3 3\<newline>'')"
    by code_simp
  show ?thesis
    by (intro conjI; fact)
qed

section \<open>Properties of runs\<close>



lemma run_queries:
  "run (replicate n Query) (s, out) = (s, out @ replicate n (snd (typespeed_proc_show [] s)))"
  by (induction n arbitrary: out) (simp_all add: replicate_app_Cons_same)

lemma ring_le_total_zero: "ring_le_total zero_state"
  by (simp add: ring_le_total_def wf_zero_state) (simp add: zero_state_def sum_list_replicate)

lemma sum_list_update_le:
  fixes xs :: "nat list"
  assumes "i < length xs"
  shows "sum_list (xs[i := v]) \<le> sum_list xs + v"
  using assms by (simp add: sum_list_update)

lemma ring_le_total_timer_callback:
  assumes "ring_le_total s" and "unat (total s) + unat (events s) < 2 ^ 64"
  shows "ring_le_total (timer_callback s)"
proof -
  from assms(1) have w: "wf_state s" and le: "(\<Sum>w\<leftarrow>interval s. unat w) \<le> unat (total s)"
    by (simp_all add: ring_le_total_def)
  from w have l: "length (interval s) = 60" and c: "0 \<le> t s" "t s < 60"
    by (simp_all add: wf_state_def LENGTH_N_def)
  have b: "nat ((t s + 1) smod LENGTH_N) < length (map unat (interval s))"
    using c l by (simp add: LENGTH_N_def cursor_step)
  have u: "unat (total s + events s) = unat (total s) + unat (events s)"
    using unat_add_lem [of "total s" "events s"] assms(2) by simp
  have "(\<Sum>w\<leftarrow>interval (timer_callback s). unat w) =
        sum_list ((map unat (interval s))[nat ((t s + 1) smod LENGTH_N) := unat (events s)])"
    by (simp add: timer_callback_fields map_update)
  also have "\<dots> \<le> sum_list (map unat (interval s)) + unat (events s)"
    using b by (rule sum_list_update_le)
  also have "\<dots> \<le> unat (total s) + unat (events s)"
    using le by simp
  finally show ?thesis
    by (simp add: ring_le_total_def wf_timer_callback [OF w] timer_callback_fields u)
qed

lemma ring_le_total_event:
  "ring_le_total s \<Longrightarrow> ring_le_total (typespeed_event type code value s)"
  by (simp add: ring_le_total_def wf_typespeed_event typespeed_event_other)

lemma ring_le_total_run:
  "ring_le_total s \<Longrightarrow> total_fits ops s \<Longrightarrow> ring_le_total (fst (run ops (s, out)))"
proof (induction ops arbitrary: s out)
  case Nil
  then show ?case by simp
next
  case (Cons x xs)
  show ?case
  proof (cases x)
    case (Event ty cd vl)
    with Cons.prems Cons.IH [of "typespeed_event ty cd vl s" out] show ?thesis
      by (simp add: ring_le_total_event)
  next
    case Rotate
    with Cons.prems Cons.IH [of "timer_callback s" out] show ?thesis
      by (simp add: ring_le_total_timer_callback)
  next
    case Query
    with Cons.prems Cons.IH [of s "out @ [snd (typespeed_proc_show [] s)]"] show ?thesis
      by simp
  qed
qed

lemma unat_sum_list_le: "unat (sum_list (ws :: size_t list)) \<le> (\<Sum>w\<leftarrow>ws. unat w)"
proof (induction ws)
  case Nil
  then show ?case by simp
next
  case (Cons w ws)
  have "unat (w + sum_list ws) \<le> unat w + unat (sum_list ws)"
    by (simp add: unat_word_ariths)
  with Cons show ?case by simp
qed

lemma behind_all:
  assumes "wf_state s"
  shows "(\<Sum>k\<leftarrow>[0..59]. bucket_behind s k) = sum_list (interval s)"
proof -
  from assms have l: "length (interval s) = 60" and c: "0 \<le> t s" "t s < 60"
    by (simp_all add: wf_state_def LENGTH_N_def)
  have d: "distinct [0..59::int]" by (rule distinct_upto)
  have "(\<Sum>k\<leftarrow>[0..59]. bucket_behind s k) = (\<Sum>k\<in>{0..59}. bucket_behind s k)"
    using sum_list_distinct_conv_sum_set [OF d, of "bucket_behind s"] by (simp del: upto_rec_numeral)
  also have "\<dots> = (\<Sum>i\<in>{0..<60}. interval s ! i)"
  proof (rule sum.reindex_bij_witness [where i = "\<lambda>b. (t s - int b) mod 60"
        and j = "\<lambda>k. nat ((t s - k) mod 60)"])
    fix k :: int
    assume "k \<in> {0..59}"
    then show "(t s - int (nat ((t s - k) mod 60))) mod 60 = k"
      by (simp add: mod_diff_right_eq)
    show "nat ((t s - k) mod 60) \<in> {0..<60}"
      by simp
    show "interval s ! nat ((t s - k) mod 60) = bucket_behind s k"
      by (simp add: bucket_behind_def)
  next
    fix b :: nat
    assume "b \<in> {0..<60}"
    then show "nat ((t s - (t s - int b) mod 60) mod 60) = b"
      by (simp add: mod_diff_right_eq)
    show "(t s - int b) mod 60 \<in> {0..59}"
      by simp
  qed
  also have "\<dots> = sum_list (interval s)"
    by (simp add: sum_list_sum_nth l)
  finally show ?thesis .
qed
lemma window_sums_all:
  assumes "wf_state s" and "snapshot s = (sum10, sum30, sum60, tot)"
  shows "sum60 = sum_list (interval s)" and "tot = total s"
proof -
  have u: "[0..59::int] = [0..9] @ [10..29] @ [30..59]"
    using upto_split1 [of 0 10 59] upto_split1 [of 10 30 59] by (simp del: upto_rec_numeral)
  from assms(2)
  have "sum60 = (\<Sum>k\<leftarrow>[0..9]. bucket_behind s k) + (\<Sum>k\<leftarrow>[10..29]. bucket_behind s k) +
                (\<Sum>k\<leftarrow>[30..59]. bucket_behind s k)"
    by (auto simp add: snapshot_def window_sums_behind [OF assms(1)] simp del: upto_rec_numeral)
  also have "\<dots> = (\<Sum>k\<leftarrow>[0..59]. bucket_behind s k)"
    by (simp only: u map_append sum_list_append add.assoc)
  finally show "sum60 = sum_list (interval s)"
    by (simp only: behind_all [OF assms(1)])
  from assms(2) show "tot = total s"
    by (auto simp add: snapshot_def split: prod.splits)
qed

lemma countable_keys: "countable 1 30 1" "countable 1 31 1" "countable 1 32 1"
  by code_simp+

lemma total_fits_busy: "total_fits busy_ops zero_state"
  by (simp add: busy_ops_def typespeed_event_countable countable_keys timer_callback_def Let_def)
     (simp add: zero_state_def)




text \<open>
  Claim C8.  In every state reached from the zero-initialised state by events, rotations
  and queries, with no rotation overflowing the total, the 60 ring cells add up to at
  most the total; in particular the \<open>sum60\<close> of a query is at most the total it reports.
\<close>

theorem ring_sum_le_total:
  assumes "total_fits ops zero_state"
  shows "(\<Sum>w\<leftarrow>interval (fst (run ops (zero_state, out))). unat w) \<le>
           unat (total (fst (run ops (zero_state, out)))) \<and>
         (case snapshot (fst (run ops (zero_state, out))) of
            (sum10, sum30, sum60, tot) \<Rightarrow> unat sum60 \<le> unat tot)"
proof -
  let ?s = "fst (run ops (zero_state, out))"
  from ring_le_total_run [OF ring_le_total_zero assms, of out]
  have w: "wf_state ?s" and le: "(\<Sum>w\<leftarrow>interval ?s. unat w) \<le> unat (total ?s)"
    by (simp_all add: ring_le_total_def)
  obtain sum10 sum30 sum60 tot where sn: "snapshot ?s = (sum10, sum30, sum60, tot)"
    by (cases "snapshot ?s") auto
  from window_sums_all [OF w sn] have "sum60 = sum_list (interval ?s)" and "tot = total ?s" .
  with unat_sum_list_le [of "interval ?s"] le have "unat sum60 \<le> unat tot" by simp
  with le sn show ?thesis by simp
qed

theorem ring_sum_le_total_witness:
  "total_fits busy_ops zero_state \<and>
   (\<Sum>w\<leftarrow>interval (fst (run busy_ops (zero_state, []))). unat w) \<le>
      unat (total (fst (run busy_ops (zero_state, [])))) \<and>
   snapshot (fst (run busy_ops (zero_state, []))) = (3, 3, 3, 3) \<and>
   unat (3::size_t) \<le> unat (3::size_t)"
proof -
  have h: "total_fits busy_ops zero_state" by (rule total_fits_busy)
  have sn: "snapshot (fst (run busy_ops (zero_state, []))) = (3, 3, 3, 3)" by code_simp
  from ring_sum_le_total [OF h, of "[]"] h sn show ?thesis by simp
qed

text \<open>
  Claim C9.  Any number of queries in a row, with no event and no rotation between them,
  return the same line every time and leave the module state unchanged: the result of
  \<^verbatim>\<open>typespeed_proc_show\<close> is a function of the state, and no statement of the query
  writes to the cursor, the counter, the total or the ring.
\<close>

theorem query_idempotent:
  "run (replicate n Query) (s, out) = (s, out @ replicate n (snd (typespeed_proc_show [] s))) \<and>
   typespeed_proc_show m s = (0, m @ snd (typespeed_proc_show [] s)) \<and>
   (step Read c = Some c' \<longrightarrow> globals c' = globals c)"
  using run_queries [of n s out] typespeed_proc_show_buffer [of m s] step_read_globals [of c c']
  by blast

theorem query_idempotent_witness:
  "step Read init_sys = Some (init_sys\<lparr>splock := Some Reader, reader_at := R_locked\<rparr>) \<and>
   globals (init_sys\<lparr>splock := Some Reader, reader_at := R_locked\<rparr>) = globals init_sys \<and>
   run (replicate 3 Query) (demo_state, []) =
     (demo_state, [''42 34 117 117\<newline>'', ''42 34 117 117\<newline>'', ''42 34 117 117\<newline>''])"
proof -
  have h: "step Read init_sys = Some (init_sys\<lparr>splock := Some Reader, reader_at := R_locked\<rparr>)"
    by code_simp
  have p: "snd (typespeed_proc_show [] demo_state) = ''42 34 117 117\<newline>''" by code_simp
  have r: "replicate 3 ''42 34 117 117\<newline>'' =
           [''42 34 117 117\<newline>'', ''42 34 117 117\<newline>'', ''42 34 117 117\<newline>'']"
    by (simp add: numeral_3_eq_3)
  from query_idempotent [of 3 demo_state "[]" "[]" init_sys
      "init_sys\<lparr>splock := Some Reader, reader_at := R_locked\<rparr>"] h
  show ?thesis by (simp only: p r append_Nil simp_thms)
qed

section \<open>Properties of \<^verbatim>\<open>typespeed_connect\<close>\<close>

lemma connect_no_memory:
  "kzalloc_result env = None \<Longrightarrow> typespeed_connect env h d k = (- ENOMEM, k)"
  by (simp add: typespeed_connect_def kzalloc_def)

lemma connect_register_fails:
  assumes "kzalloc_result env = Some p" and "register_rc env \<noteq> 0"
  shows "fst (typespeed_connect env h d k) = - 1"
    and "registered (snd (typespeed_connect env h d k)) = registered k"
    and "opened (snd (typespeed_connect env h d k)) = opened k"
  using assms
  by (simp_all add: typespeed_connect_def kzalloc_def input_register_handle_def printk_def
        Let_def)

lemma connect_open_fails:
  assumes "kzalloc_result env = Some p" and "register_rc env = 0" and "open_rc env \<noteq> 0"
  shows "fst (typespeed_connect env h d k) = - 1"
    and "registered (snd (typespeed_connect env h d k)) = removeAll p (registered k)"
    and "opened (snd (typespeed_connect env h d k)) = opened k"
  using assms
  by (simp_all add: typespeed_connect_def kzalloc_def input_register_handle_def printk_def
        input_open_device_def input_unregister_handle_def Let_def)

lemma connect_succeeds:
  assumes "kzalloc_result env = Some p" and "register_rc env = 0" and "open_rc env = 0"
  shows "fst (typespeed_connect env h d k) = 0"
    and "registered (snd (typespeed_connect env h d k)) = p # registered k"
    and "opened (snd (typespeed_connect env h d k)) = p # opened k"
  using assms
  by (simp_all add: typespeed_connect_def kzalloc_def input_register_handle_def
        input_open_device_def Let_def)

text \<open>
  Claim C10.  When \<^verbatim>\<open>kzalloc\<close> returns \<^verbatim>\<open>NULL\<close>, \<^verbatim>\<open>typespeed_connect\<close> returns the
  non-zero code \<open>-ENOMEM\<close> and leaves the kernel as it was.  When the allocation
  succeeds and the registration or the opening of the device fails, it returns \<open>-1\<close>,
  and afterwards the handle is neither registered nor open: the registered and the open
  handles are those from before the call.  When all three calls succeed it returns 0 with
  the handle registered and open.
\<close>

theorem typespeed_connect_failures:
  "(kzalloc_result env = None \<longrightarrow>
      typespeed_connect env h d k = (- ENOMEM, k) \<and> - ENOMEM \<noteq> 0) \<and>
   (kzalloc_result env = Some p \<and> p \<notin> set (registered k) \<and>
      (register_rc env \<noteq> 0 \<or> open_rc env \<noteq> 0) \<longrightarrow>
      fst (typespeed_connect env h d k) = - 1 \<and>
      registered (snd (typespeed_connect env h d k)) = registered k \<and>
      p \<notin> set (registered (snd (typespeed_connect env h d k))) \<and>
      opened (snd (typespeed_connect env h d k)) = opened k) \<and>
   (kzalloc_result env = Some p \<and> register_rc env = 0 \<and> open_rc env = 0 \<longrightarrow>
      fst (typespeed_connect env h d k) = 0 \<and>
      registered (snd (typespeed_connect env h d k)) = p # registered k \<and>
      opened (snd (typespeed_connect env h d k)) = p # opened k)"
proof (intro conjI impI)
  assume "kzalloc_result env = None"
  then show "typespeed_connect env h d k = (- ENOMEM, k)" by (rule connect_no_memory)
next
  show "- ENOMEM \<noteq> 0" by (simp add: ENOMEM_def)
next
  assume a: "kzalloc_result env = Some p \<and> p \<notin> set (registered k) \<and>
             (register_rc env \<noteq> 0 \<or> open_rc env \<noteq> 0)"
  then have al: "kzalloc_result env = Some p" and fr: "p \<notin> set (registered k)" by simp_all
  have r: "fst (typespeed_connect env h d k) = - 1 \<and>
           registered (snd (typespeed_connect env h d k)) = registered k \<and>
           opened (snd (typespeed_connect env h d k)) = opened k"
  proof (cases "register_rc env = 0")
    case True
    with a have "open_rc env \<noteq> 0" by simp
    from connect_open_fails [OF al True this, of h d k] fr show ?thesis by simp
  next
    case False
    from connect_register_fails [OF al False, of h d k] show ?thesis by simp
  qed
  from r show "fst (typespeed_connect env h d k) = - 1" by simp
  from r show "registered (snd (typespeed_connect env h d k)) = registered k" by simp
  from r fr show "p \<notin> set (registered (snd (typespeed_connect env h d k)))" by simp
  from r show "opened (snd (typespeed_connect env h d k)) = opened k" by simp
next
  assume a: "kzalloc_result env = Some p \<and> register_rc env = 0 \<and> open_rc env = 0"
  then have al: "kzalloc_result env = Some p" and r0: "register_rc env = 0"
    and o0: "open_rc env = 0" by simp_all
  from connect_succeeds [OF al r0 o0, of h d k]
  show "fst (typespeed_connect env h d k) = 0"
    and "registered (snd (typespeed_connect env h d k)) = p # registered k"
    and "opened (snd (typespeed_connect env h d k)) = p # opened k"
    by simp_all
qed

theorem typespeed_connect_failures_witness:
  "kzalloc_result no_memory = None \<and>
   typespeed_connect no_memory 1 2 empty_kernel = (- 12, empty_kernel) \<and>
   kzalloc_result register_fails = Some 7 \<and> 7 \<notin> set (registered empty_kernel) \<and>
   register_rc register_fails \<noteq> 0 \<and>
   fst (typespeed_connect register_fails 1 2 empty_kernel) = - 1 \<and>
   registered (snd (typespeed_connect register_fails 1 2 empty_kernel)) = [] \<and>
   opened (snd (typespeed_connect register_fails 1 2 empty_kernel)) = [] \<and>
   kzalloc_result open_fails = Some 7 \<and> open_rc open_fails \<noteq> 0 \<and>
   fst (typespeed_connect open_fails 1 2 empty_kernel) = - 1 \<and>
   registered (snd (typespeed_connect open_fails 1 2 empty_kernel)) = [] \<and>
   opened (snd (typespeed_connect open_fails 1 2 empty_kernel)) = [] \<and>
   kzalloc_result all_succeed = Some 7 \<and> register_rc all_succeed = 0 \<and>
   open_rc all_succeed = 0 \<and>
   fst (typespeed_connect all_succeed 1 2 empty_kernel) = 0 \<and>
   registered (snd (typespeed_connect all_succeed 1 2 empty_kernel)) = [7] \<and>
   opened (snd (typespeed_connect all_succeed 1 2 empty_kernel)) = [7]"
proof -
  have n: "kzalloc_result no_memory = None" by (simp add: no_memory_def)
  have r: "kzalloc_result register_fails = Some 7" "register_rc register_fails \<noteq> 0"
    by (simp_all add: register_fails_def)
  have p: "kzalloc_result open_fails = Some 7" "open_rc open_fails \<noteq> 0"
    by (simp_all add: open_fails_def)
  have s: "kzalloc_result all_succeed = Some 7" "register_rc all_succeed = 0"
    "open_rc all_succeed = 0"
    by (simp_all add: all_succeed_def)
  have e: "registered empty_kernel = []" "opened empty_kernel = []"
    by (simp_all add: empty_kernel_def)
  from typespeed_connect_failures [of no_memory 1 2 empty_kernel 7]
    typespeed_connect_failures [of register_fails 1 2 empty_kernel 7]
    typespeed_connect_failures [of open_fails 1 2 empty_kernel 7]
    typespeed_connect_failures [of all_succeed 1 2 empty_kernel 7]
    n r p s
  show ?thesis by (simp add: e ENOMEM_def)
qed

end
